theory Spec2Isabelle
  imports Main "HOL-Library.Multiset"
begin

section \<open>Python values and text\<close>

text \<open>
  A Python \<^verbatim>\<open>str\<close> is a sequence of Unicode code points; a code point is a natural
  number. \<open>U\<close> turns an ASCII literal into such a sequence.
\<close>

type_synonym ustr = "nat list"

definition U :: "string \<Rightarrow> ustr" where
  "U s = map of_char s"

text \<open>
  The fields of a task row are of type \<^verbatim>\<open>Any\<close>. The program only ever asks of such a
  value whether it is a \<^verbatim>\<open>str\<close> (\<^verbatim>\<open>isinstance\<close>, \<^verbatim>\<open>==\<close> against a literal) and
  what \<^verbatim>\<open>str(v)\<close> is, so a value is either a string or a non-string (\<^verbatim>\<open>None\<close>, a
  number, ...) given by its \<^verbatim>\<open>str()\<close> rendering.
\<close>

datatype pyval = Str ustr | NonStr ustr

fun py_str :: "pyval \<Rightarrow> ustr" where
  "py_str (Str s) = s"
| "py_str (NonStr r) = r"

definition py_None :: pyval where
  "py_None = NonStr (U ''None'')"

text \<open>\<^verbatim>\<open>d.get(key, default)\<close>: a field is \<open>None\<close> when the key is absent from the dict.\<close>

definition get_or :: "'a option \<Rightarrow> 'a \<Rightarrow> 'a" where
  "get_or field dflt = (case field of None \<Rightarrow> dflt | Some v \<Rightarrow> v)"

datatype py_error = IndexError | AttributeError

section \<open>Answer normalisation\<close>

text \<open>
  The code points for which \<^verbatim>\<open>str.isspace\<close> holds; \<^verbatim>\<open>str.strip()\<close> and the regular
  expression class \<^verbatim>\<open>\s\<close> both use this set.
\<close>

definition isspace :: "nat \<Rightarrow> bool" where
  "isspace c \<longleftrightarrow>
     (9 \<le> c \<and> c \<le> 13) \<or> (28 \<le> c \<and> c \<le> 32) \<or> c = 133 \<or> c = 160 \<or> c = 5760 \<or>
     (8192 \<le> c \<and> c \<le> 8202) \<or> c = 8232 \<or> c = 8233 \<or> c = 8239 \<or> c = 8287 \<or> c = 12288"

definition strip :: "ustr \<Rightarrow> ustr" where
  "strip s = rev (dropWhile isspace (rev (dropWhile isspace s)))"

text \<open>
  The character class of the first \<^verbatim>\<open>re.sub\<close>: degree sign, masculine ordinal,
  \<^verbatim>\<open>^\<close>, bullet, multiplication sign, \<^verbatim>\<open>* / \ . , ; : ! ? - ( ) [ ] " '\<close>.
\<close>

definition punct :: "nat \<Rightarrow> bool" where
  "punct c \<longleftrightarrow> c \<in> set [176, 186, 94, 8226, 215, 42, 47, 92, 46, 44, 59, 58, 33, 63, 45,
     40, 41, 91, 93, 34, 39]"

text \<open>
  \<^verbatim>\<open>str.lower\<close> follows the case tables of the interpreter's Unicode database; it is
  the parameter \<open>lower\<close> of everything below.
\<close>

definition normalize_answer :: "(ustr \<Rightarrow> ustr) \<Rightarrow> pyval \<Rightarrow> ustr" where
  "normalize_answer lower v =
     (case v of
        NonStr _ \<Rightarrow> []
      | Str s0 \<Rightarrow>
          (let s1 = strip (lower s0);
               s2 = filter (\<lambda>c. \<not> punct c) s1;
               s3 = filter (\<lambda>c. \<not> isspace c) s2
           in s3))"

text \<open>\<^verbatim>\<open>str.lower\<close> on text whose cased letters are all ASCII.\<close>

definition ascii_lower :: "ustr \<Rightarrow> ustr" where
  "ascii_lower s = map (\<lambda>c. if 65 \<le> c \<and> c \<le> 90 then c + 32 else c) s"

text \<open>
  What the idempotence of normalisation needs of \<^verbatim>\<open>str.lower\<close>: text built from code
  points of an already lowered string has nothing left to lower.
\<close>

definition lower_stable :: "(ustr \<Rightarrow> ustr) \<Rightarrow> bool" where
  "lower_stable lower \<longleftrightarrow> (\<forall>s t. set t \<subseteq> set (lower s) \<longrightarrow> lower t = t)"

section \<open>Tasks, sessions and the session store\<close>

record task =
  task_type :: "pyval option"
  question :: "pyval option"
  options :: "pyval list"
  answer :: "pyval option"
  explanation :: "pyval option"

record session =
  tasks :: "task list"
  current :: nat
  correct :: nat
  wrong :: "(pyval \<times> pyval) list"
  waiting_text :: bool

type_synonym uid = int

datatype message =
    MainMenu
  | ServerError
  | BadCode
  | BindError
  | RegisteredOk
  | AlreadyRegistered
  | CodeUsed
  | RegisterFirst
  | NoTasks
  | ChoiceQuestion ustr "ustr list"
  | TextQuestion ustr
  | PlainQuestion ustr
  | Correct
  | Incorrect
  | SessionNotFound
  | Results nat nat "(pyval \<times> pyval) list"

text \<open>
  The process state: \<^verbatim>\<open>user_sessions\<close>, the pending \<^verbatim>\<open>test_timer\<close> coroutines (wake-up
  time in seconds and the user id each was created with) and the messages sent so far.
\<close>

record state =
  sessions :: "uid \<rightharpoonup> session"
  timers :: "(nat \<times> uid) list"
  outbox :: "(uid \<times> message) list"

definition init :: state where
  "init = \<lparr>sessions = Map.empty, timers = [], outbox = []\<rparr>"

definition emit :: "state \<Rightarrow> uid \<Rightarrow> message \<Rightarrow> state" where
  "emit st user_id m = st\<lparr>outbox := outbox st @ [(user_id, m)]\<rparr>"

definition main_menu :: "state \<Rightarrow> uid \<Rightarrow> state" where
  "main_menu st user_id = emit (st\<lparr>sessions := (sessions st)(user_id := None)\<rparr>) user_id MainMenu"

definition show_results :: "state \<Rightarrow> uid \<Rightarrow> state" where
  "show_results st user_id =
     (case sessions st user_id of
        None \<Rightarrow> st
      | Some s \<Rightarrow>
          emit (st\<lparr>sessions := (sessions st)(user_id := None)\<rparr>) user_id
            (Results (correct s) (length (tasks s)) (wrong s)))"

section \<open>Presenting tasks\<close>

text \<open>The default question text \<^verbatim>\<open>"(\<dots>)"\<close> of \<^verbatim>\<open>send_task\<close>, as code points.\<close>

definition question_missing :: ustr where
  "question_missing = [40, 1074, 1086, 1087, 1088, 1086, 1089, 32, 1087, 1088, 1086, 1087,
     1091, 1097, 1077, 1085, 41]"

function send_task :: "state \<Rightarrow> uid \<Rightarrow> state" where
  "send_task st user_id =
     (case sessions st user_id of
        None \<Rightarrow> st
      | Some s \<Rightarrow>
          if current s \<ge> length (tasks s) then show_results st user_id
          else
            (let task = tasks s ! current s;
                 ttype = get_or (task_type task) (Str (U ''choice''));
                 question_text = get_or (question task) (Str question_missing)
             in if ttype = Str (U ''choice'') then
                  emit st user_id
                    (ChoiceQuestion (py_str question_text) (map py_str (options task)))
                else if ttype = Str (U ''text'') then
                  emit (st\<lparr>sessions := (sessions st)(user_id \<mapsto> s\<lparr>waiting_text := True\<rparr>)\<rparr>)
                    user_id (TextQuestion (py_str question_text))
                else
                  send_task
                    ((emit st user_id (PlainQuestion (py_str question_text)))
                       \<lparr>sessions := (sessions st)(user_id \<mapsto> s\<lparr>current := current s + 1\<rparr>)\<rparr>)
                    user_id))"
  by pat_completeness auto
termination
  by (relation "measure (\<lambda>(st, user_id).
        case sessions st user_id of None \<Rightarrow> 0 | Some s \<Rightarrow> length (tasks s) - current s)")
     (auto simp: emit_def)

declare send_task.simps [simp del]

section \<open>Starting a test\<close>

text \<open>
  \<^verbatim>\<open>random.shuffle\<close> of the standard library: for \<open>i\<close> from \<open>len(x) - 1\<close> down to \<open>1\<close>,
  exchange \<open>x[i]\<close> with \<open>x[j]\<close>, \<open>j = randbelow(i + 1)\<close>. The generator is the
  parameter \<open>rnd\<close>: \<open>randbelow(n)\<close> yields \<open>rnd n mod n\<close>.
\<close>

fun shuffle_from :: "(nat \<Rightarrow> nat) \<Rightarrow> nat \<Rightarrow> 'a list \<Rightarrow> 'a list" where
  "shuffle_from rnd 0 x = x"
| "shuffle_from rnd (Suc k) x =
     (let i = Suc k; j = rnd (i + 1) mod (i + 1)
      in shuffle_from rnd k (x[i := x ! j, j := x ! i]))"

definition shuffle :: "(nat \<Rightarrow> nat) \<Rightarrow> 'a list \<Rightarrow> 'a list" where
  "shuffle rnd x = shuffle_from rnd (length x - 1) x"

text \<open>
  \<^verbatim>\<open>load_tasks_from_supabase\<close>: the rows of the task table, \<open>None\<close> when the query
  reports an error. The rows are taken with their \<^verbatim>\<open>options\<close> already decoded.
\<close>

definition load_tasks_from_supabase :: "task list option \<Rightarrow> task list" where
  "load_tasks_from_supabase res = (case res of None \<Rightarrow> [] | Some data \<Rightarrow> data)"

text \<open>The outcome of the registration query of \<^verbatim>\<open>begin_test\<close>.\<close>

datatype reg_check = RegCheckError | NotRegistered | Registered

text \<open>
  \<open>now\<close> is the time (in seconds) at which the handler runs; the timer coroutine
  created here sleeps for 600 seconds.
\<close>

definition begin_test ::
  "nat \<Rightarrow> state \<Rightarrow> uid \<Rightarrow> reg_check \<Rightarrow> task list option \<Rightarrow> (nat \<Rightarrow> nat) \<Rightarrow> state" where
  "begin_test now st user_id res bank rnd =
     (case res of
        RegCheckError \<Rightarrow> emit st user_id ServerError
      | NotRegistered \<Rightarrow> emit st user_id RegisterFirst
      | Registered \<Rightarrow>
          (let tasks0 = load_tasks_from_supabase bank
           in if tasks0 = [] then emit st user_id NoTasks
              else
                send_task
                  (st\<lparr>sessions := (sessions st)(user_id \<mapsto>
                         \<lparr>tasks = shuffle rnd tasks0, current = 0, correct = 0, wrong = [],
                          waiting_text = False\<rparr>),
                       timers := timers st @ [(now + 600, user_id)]\<rparr>)
                  user_id))"

text \<open>\<^verbatim>\<open>test_timer\<close> after its sleep.\<close>

definition test_timer :: "state \<Rightarrow> uid \<Rightarrow> state" where
  "test_timer st user_id =
     (if user_id \<in> dom (sessions st) then show_results st user_id else st)"

section \<open>Answers and skips\<close>

text \<open>
  \<open>label\<close> is the part of the callback data after \<^verbatim>\<open>ans:\<close>. Indexing the task list
  out of range raises \<^verbatim>\<open>IndexError\<close> before anything is changed.
\<close>

definition process_answer :: "(ustr \<Rightarrow> ustr) \<Rightarrow> state \<Rightarrow> uid \<Rightarrow> ustr \<Rightarrow> py_error + state" where
  "process_answer lower st user_id label =
     (case sessions st user_id of
        None \<Rightarrow> Inr (emit st user_id SessionNotFound)
      | Some s \<Rightarrow>
          if \<not> current s < length (tasks s) then Inl IndexError
          else
            (let task = tasks s ! current s;
                 expected = get_or (answer task) py_None
             in if normalize_answer lower (Str label)
                     = normalize_answer lower (Str (py_str expected)) then
                  Inr (send_task
                    ((emit st user_id Correct)
                       \<lparr>sessions := (sessions st)(user_id \<mapsto>
                          s\<lparr>correct := correct s + 1, current := current s + 1,
                            waiting_text := False\<rparr>)\<rparr>)
                    user_id)
                else
                  Inr (send_task
                    ((emit st user_id Incorrect)
                       \<lparr>sessions := (sessions st)(user_id \<mapsto>
                          s\<lparr>wrong := wrong s @
                               [(get_or (question task) (Str []),
                                 get_or (explanation task) (Str []))],
                            current := current s + 1, waiting_text := False\<rparr>)\<rparr>)
                    user_id)))"

definition skip_task :: "state \<Rightarrow> uid \<Rightarrow> py_error + state" where
  "skip_task st user_id =
     (case sessions st user_id of
        None \<Rightarrow> Inr st
      | Some s \<Rightarrow>
          if \<not> current s < length (tasks s) then Inl IndexError
          else
            (let task = tasks s ! current s;
                 popped = take (current s) (tasks s) @ drop (Suc (current s)) (tasks s)
             in Inr (send_task
                  (st\<lparr>sessions := (sessions st)(user_id \<mapsto>
                       s\<lparr>tasks := popped @ [task], waiting_text := False\<rparr>)\<rparr>)
                  user_id)))"

text \<open>
  A message without text has \<^verbatim>\<open>message.text = None\<close>, and \<^verbatim>\<open>None.strip()\<close> raises
  \<^verbatim>\<open>AttributeError\<close>.
\<close>

definition process_text_answer ::
  "(ustr \<Rightarrow> ustr) \<Rightarrow> state \<Rightarrow> uid \<Rightarrow> ustr option \<Rightarrow> py_error + state" where
  "process_text_answer lower st user_id text =
     (case sessions st user_id of
        None \<Rightarrow> Inr st
      | Some s \<Rightarrow>
          if \<not> waiting_text s then Inr st
          else if \<not> current s < length (tasks s) then Inl IndexError
          else
            (case text of
               None \<Rightarrow> Inl AttributeError
             | Some txt \<Rightarrow>
                 (let task = tasks s ! current s;
                      answer0 = strip txt
                  in if normalize_answer lower (Str answer0)
                          = normalize_answer lower (get_or (answer task) (Str [])) then
                       Inr (send_task
                         ((emit st user_id Correct)
                            \<lparr>sessions := (sessions st)(user_id \<mapsto>
                               s\<lparr>correct := correct s + 1, current := current s + 1,
                                 waiting_text := False\<rparr>)\<rparr>)
                         user_id)
                     else
                       Inr (send_task
                         ((emit st user_id Incorrect)
                            \<lparr>sessions := (sessions st)(user_id \<mapsto>
                               s\<lparr>wrong := wrong s @
                                    [(get_or (question task) (Str []),
                                      get_or (explanation task) (Str []))],
                                 current := current s + 1, waiting_text := False\<rparr>)\<rparr>)
                         user_id))))"

section \<open>Registration\<close>

text \<open>
  What the code table answers to \<^verbatim>\<open>register_user\<close>: a query error, no row, a row with no
  \<^verbatim>\<open>telegram_id\<close> yet, a row bound to this user, a row bound to someone else.
  \<open>upd_error\<close> says whether binding a free code fails.
\<close>

datatype code_lookup = LookupError | NoSuchCode | CodeFree | CodeMine | CodeTaken

definition register_user :: "state \<Rightarrow> uid \<Rightarrow> code_lookup \<Rightarrow> bool \<Rightarrow> state" where
  "register_user st user_id res upd_error =
     (case res of
        LookupError \<Rightarrow> emit st user_id ServerError
      | NoSuchCode \<Rightarrow> emit st user_id BadCode
      | CodeFree \<Rightarrow>
          if upd_error then emit st user_id BindError
          else main_menu (emit st user_id RegisteredOk) user_id
      | CodeMine \<Rightarrow> main_menu (emit st user_id AlreadyRegistered) user_id
      | CodeTaken \<Rightarrow> emit st user_id CodeUsed)"

section \<open>Events and the event loop\<close>

text \<open>
  One constructor for each handler of the dispatcher, with what the outside world answers
  during the handler. The dispatcher tries the message handlers in the order of the
  source: a text matching the code pattern goes to \<^verbatim>\<open>register_user\<close> (\<open>CodeMsg\<close>), the
  text \<^verbatim>\<open>/test\<close> to \<^verbatim>\<open>begin_test\<close> (\<open>StartTest\<close>, also the \<^verbatim>\<open>start_test\<close> button), and
  any other message to \<^verbatim>\<open>process_text_answer\<close> (\<open>TextMsg\<close>).
\<close>

datatype event =
    CodeMsg uid code_lookup bool
  | StartTest uid reg_check "task list option" "nat \<Rightarrow> nat"
  | AnsButton uid ustr
  | SkipButton uid
  | BackMenu uid
  | TextMsg uid "ustr option"

fun handle :: "(ustr \<Rightarrow> ustr) \<Rightarrow> nat \<Rightarrow> state \<Rightarrow> event \<Rightarrow> py_error + state" where
  "handle lower now st (CodeMsg u res upd_error) = Inr (register_user st u res upd_error)"
| "handle lower now st (StartTest u res bank rnd) = Inr (begin_test now st u res bank rnd)"
| "handle lower now st (AnsButton u label) = process_answer lower st u label"
| "handle lower now st (SkipButton u) = skip_task st u"
| "handle lower now st (BackMenu u) = Inr (main_menu st u)"
| "handle lower now st (TextMsg u text) = process_text_answer lower st u text"

text \<open>
  Events are handled one at a time, each handler running to its end before the next
  event. The event loop wakes every timer whose sleep is over, earliest first, before it
  runs the handler of an event arriving at time \<open>now\<close>.
\<close>

fun fire_all :: "state \<Rightarrow> uid list \<Rightarrow> state" where
  "fire_all st [] = st"
| "fire_all st (u # us) = fire_all (test_timer st u) us"

definition wake :: "nat \<Rightarrow> state \<Rightarrow> state" where
  "wake now st =
     (let due = filter (\<lambda>(t, u). t \<le> now) (timers st);
          pending = filter (\<lambda>(t, u). \<not> t \<le> now) (timers st)
      in fire_all (st\<lparr>timers := pending\<rparr>) (map snd (sort_key fst due)))"

text \<open>
  A handler that raises leaves the state as it was (every raise of the handlers above
  comes before their first assignment); the dispatcher logs the exception and goes on.
\<close>

definition step :: "(ustr \<Rightarrow> ustr) \<Rightarrow> state \<Rightarrow> nat \<times> event \<Rightarrow> state" where
  "step lower st te =
     (let st1 = wake (fst te) st
      in case handle lower (fst te) st1 (snd te) of Inl _ \<Rightarrow> st1 | Inr st2 \<Rightarrow> st2)"

fun run :: "(ustr \<Rightarrow> ustr) \<Rightarrow> state \<Rightarrow> (nat \<times> event) list \<Rightarrow> state" where
  "run lower st [] = st"
| "run lower st (te # tes) = run lower (step lower st te) tes"

section \<open>Routing a text message\<close>

text \<open>
  The filter of \<^verbatim>\<open>register_user\<close>, the pattern \<^verbatim>\<open>^[A-Z0-9]{4,10}$\<close> matched from the start
  of the text: four to ten capital letters or digits, then the end of the text or one
  last newline.
\<close>

definition code_char :: "nat \<Rightarrow> bool" where
  "code_char c \<longleftrightarrow> (65 \<le> c \<and> c \<le> 90) \<or> (48 \<le> c \<and> c \<le> 57)"

definition code_body :: "ustr \<Rightarrow> bool" where
  "code_body s \<longleftrightarrow> 4 \<le> length s \<and> length s \<le> 10 \<and> list_all code_char s"

definition code_shaped :: "ustr \<Rightarrow> bool" where
  "code_shaped s \<longleftrightarrow> code_body s \<or> (s \<noteq> [] \<and> last s = 10 \<and> code_body (butlast s))"

text \<open>
  What the outside world answers to the handler a text message may reach: the code table
  and the binding of a free code for \<^verbatim>\<open>register_user\<close>; the registration query, the task
  bank and the random generator for \<^verbatim>\<open>begin_test\<close>.
\<close>

record replies =
  code_reply :: code_lookup
  bind_fails :: bool
  reg_reply :: reg_check
  bank_reply :: "task list option"
  draws :: "nat \<Rightarrow> nat"

text \<open>
  The event a text message is: the dispatcher tries \<^verbatim>\<open>register_user\<close> first, then
  \<^verbatim>\<open>start_test_cmd\<close>, and hands any other text to \<^verbatim>\<open>process_text_answer\<close>.
\<close>

definition text_event :: "uid \<Rightarrow> ustr \<Rightarrow> replies \<Rightarrow> event" where
  "text_event u txt w =
     (if code_shaped txt then CodeMsg u (code_reply w) (bind_fails w)
      else if txt = U ''/test'' then StartTest u (reg_reply w) (bank_reply w) (draws w)
      else TextMsg u (Some txt))"

section \<open>Observing a run\<close>

text \<open>The final reports sent to a user, in the order they were sent.\<close>

fun is_results :: "message \<Rightarrow> bool" where
  "is_results (Results c n w) = True"
| "is_results _ = False"

definition reports :: "uid \<Rightarrow> state \<Rightarrow> message list" where
  "reports u st = filter is_results (map snd (filter (\<lambda>p. fst p = u) (outbox st)))"

text \<open>The denominators of a list of final reports.\<close>

fun totals :: "message list \<Rightarrow> nat list" where
  "totals [] = []"
| "totals (Results c n w # ms) = n # totals ms"
| "totals (m # ms) = totals ms"

text \<open>Whether an event starts a test for the user.\<close>

fun starts :: "uid \<Rightarrow> event \<Rightarrow> bool" where
  "starts u (StartTest v res bank rnd) = (v = u)"
| "starts u _ = False"

text \<open>Every stored session has its position inside its queue.\<close>

definition in_bounds :: "state \<Rightarrow> bool" where
  "in_bounds st \<longleftrightarrow> (\<forall>u s. sessions st u = Some s \<longrightarrow> current s < length (tasks s))"

text \<open>The two tasks of the scenario of the specification, and a task of another kind.\<close>

definition task1 :: task where
  "task1 = \<lparr>task_type = Some (Str (U ''choice'')), question = Some (Str (U ''2+2?'')),
     options = [Str (U ''3''), Str (U ''4'')], answer = Some (Str (U ''4'')),
     explanation = Some (Str (U ''four''))\<rparr>"

definition task2 :: task where
  "task2 = \<lparr>task_type = Some (Str (U ''text'')), question = Some (Str (U ''Capital of France?'')),
     options = [], answer = Some (Str (U ''Paris'')),
     explanation = Some (Str (U ''Paris it is''))\<rparr>"

definition task3 :: task where
  "task3 = \<lparr>task_type = Some (Str (U ''info'')), question = Some (Str (U ''Read this'')),
     options = [], answer = None, explanation = None\<rparr>"

text \<open>A generator whose every draw \<open>randbelow(n)\<close> is \<open>n - 1\<close>: the shuffle changes nothing.\<close>

definition rnd_last :: "nat \<Rightarrow> nat" where
  "rnd_last n = n - 1"

text \<open>
  What \<^verbatim>\<open>send_task\<close> may do for a user whose session was \<open>s\<close>: it sends messages to
  that user only, and either removes the session with one final report, or leaves it
  with the same queue and score at a position inside the queue, without any report.
\<close>

definition presented :: "state \<Rightarrow> uid \<Rightarrow> session \<Rightarrow> state \<Rightarrow> bool" where
  "presented st u s st' \<longleftrightarrow>
     timers st' = timers st \<and>
     (\<forall>v. v \<noteq> u \<longrightarrow> sessions st' v = sessions st v) \<and>
     (\<exists>ms. outbox st' = outbox st @ map (Pair u) ms \<and>
        ((sessions st' u = None \<and>
          filter is_results ms = [Results (correct s) (length (tasks s)) (wrong s)]) \<or>
         (\<exists>s'. sessions st' u = Some s' \<and> tasks s' = tasks s \<and> correct s' = correct s \<and>
            wrong s' = wrong s \<and> current s \<le> current s' \<and> current s' < length (tasks s') \<and>
            filter is_results ms = [])))"

text \<open>
  How a run looks to one user from a point where that user's queue had \<open>n\<close> tasks and
  the reports sent to the user were \<open>r\<close>: either the session is still there with a queue
  of \<open>n\<close> tasks and no further report, or it is gone and at most one report, with
  denominator \<open>n\<close>, was added.
\<close>

definition tracked :: "uid \<Rightarrow> nat \<Rightarrow> message list \<Rightarrow> state \<Rightarrow> bool" where
  "tracked u n r st \<longleftrightarrow>
     (\<exists>s. sessions st u = Some s \<and> length (tasks s) = n \<and> reports u st = r) \<or>
     (sessions st u = None \<and>
        (reports u st = r \<or> (\<exists>c w. reports u st = r @ [Results c n w])))"

definition user_effect :: "uid \<Rightarrow> state \<Rightarrow> state \<Rightarrow> bool" where
  "user_effect u st st' \<longleftrightarrow>
     (case sessions st u of
        None \<Rightarrow> sessions st' u = None \<and> reports u st' = reports u st
      | Some s \<Rightarrow> tracked u (length (tasks s)) (reports u st) st')"

text \<open>Concrete runs for user 7: events with the time at which each arrives.\<close>

definition demo_trace :: "(nat \<times> event) list" where
  "demo_trace = [(0, StartTest 7 Registered (Some [task1, task2]) rnd_last),
                 (5, AnsButton 7 (U ''4''))]"

definition demo_events :: "(nat \<times> event) list" where
  "demo_events = [(5, SkipButton 7), (9, TextMsg 7 (Some (U '' paris ''))),
                  (12, AnsButton 7 (U ''3''))]"

definition stray_events :: "(nat \<times> event) list" where
  "stray_events = [(700, AnsButton 7 (U ''4'')), (701, SkipButton 7),
                   (702, TextMsg 7 (Some (U ''4''))), (703, BackMenu 7)]"

definition one_task_state :: state where
  "one_task_state = begin_test 0 init 7 Registered (Some [task1]) rnd_last"

definition stale_timer_trace :: "(nat \<times> event) list" where
  "stale_timer_trace = [(0, StartTest 7 Registered (Some [task1, task2]) rnd_last),
                        (100, BackMenu 7),
                        (200, StartTest 7 Registered (Some [task1, task2]) rnd_last)]"

text \<open>The first task of the scenario with its options and answer stored as numbers.\<close>

definition numeric_task :: task where
  "numeric_task = \<lparr>task_type = Some (Str (U ''choice'')), question = Some (Str (U ''2+2?'')),
     options = [NonStr (U ''3''), NonStr (U ''4'')], answer = Some (NonStr (U ''4'')),
     explanation = Some (Str (U ''four''))\<rparr>"

definition numeric_state :: state where
  "numeric_state = begin_test 0 init 7 Registered (Some [numeric_task, task2]) rnd_last"

text \<open>The session a handler leaves for a user; none when the handler raised.\<close>

definition session_after :: "py_error + state \<Rightarrow> uid \<Rightarrow> session option" where
  "session_after r u = (case r of Inl e \<Rightarrow> None | Inr st \<Rightarrow> sessions st u)"

text \<open>The messages sent once a handler is through; none when the handler raised.\<close>

definition sent_after :: "py_error + state \<Rightarrow> (uid \<times> message) list" where
  "sent_after r = (case r of Inl e \<Rightarrow> [] | Inr st \<Rightarrow> outbox st)"

text \<open>
  An outside world in which the code sent is bound to the sender, the sender is
  registered and the bank holds the two tasks of the scenario.
\<close>

definition demo_replies :: replies where
  "demo_replies = \<lparr>code_reply = CodeMine, bind_fails = False, reg_reply = Registered,
     bank_reply = Some [task1, task2], draws = rnd_last\<rparr>"

text \<open>A test for user 7 whose first task asks for free text, and its session.\<close>

definition text_first_state :: state where
  "text_first_state = begin_test 0 init 7 Registered (Some [task2, task1]) rnd_last"

definition text_first_session :: session where
  "text_first_session =
     \<lparr>tasks = [task2, task1], current = 0, correct = 0, wrong = [], waiting_text = True\<rparr>"

text \<open>The state after \<open>demo_trace\<close>, and the session stored in it.\<close>

definition demo_state :: state where
  "demo_state = run ascii_lower init demo_trace"

definition demo_session :: session where
  "demo_session =
     \<lparr>tasks = [task1, task2], current = 1, correct = 1, wrong = [], waiting_text = True\<rparr>"

section \<open>The scoring rule in the words of the specification\<close>

text \<open>
  The comparison made for a button label and for a typed text, and the session \<open>s'\<close>
  that scoring the current task of \<open>s\<close> leaves: the score goes up by one and the misses
  stay, or the score stays and the (question, explanation) pair of the task is appended
  to the misses; the position advances by one and no free text is awaited.
\<close>

definition button_matches :: "(ustr \<Rightarrow> ustr) \<Rightarrow> task \<Rightarrow> ustr \<Rightarrow> bool" where
  "button_matches lower t label \<longleftrightarrow>
     normalize_answer lower (Str label)
       = normalize_answer lower (Str (py_str (get_or (answer t) py_None)))"

definition text_matches :: "(ustr \<Rightarrow> ustr) \<Rightarrow> task \<Rightarrow> ustr \<Rightarrow> bool" where
  "text_matches lower t txt \<longleftrightarrow>
     normalize_answer lower (Str (strip txt))
       = normalize_answer lower (get_or (answer t) (Str []))"

definition scored_as :: "session \<Rightarrow> bool \<Rightarrow> session \<Rightarrow> bool" where
  "scored_as s equal s' \<longleftrightarrow>
     tasks s' = tasks s \<and> current s' = current s + 1 \<and> \<not> waiting_text s' \<and>
     (if equal then correct s' = correct s + 1 \<and> wrong s' = wrong s
      else correct s' = correct s \<and>
           wrong s' = wrong s @ [(get_or (question (tasks s ! current s)) (Str []),
                                  get_or (explanation (tasks s ! current s)) (Str []))])"

text \<open>The queue after skipping the task at position \<open>i\<close>, in the words of the specification.\<close>

definition skipped_queue :: "'a list \<Rightarrow> nat \<Rightarrow> 'a list \<Rightarrow> bool" where
  "skipped_queue q i q' \<longleftrightarrow>
     length q' = length q \<and> take i q' = take i q \<and>
     drop i q' = drop (Suc i) q @ [q ! i] \<and> last q' = q ! i \<and>
     (Suc i < length q \<longrightarrow> q' ! i = q ! Suc i) \<and>
     (Suc i = length q \<longrightarrow> q' = q)"
section \<open>Auxiliary facts\<close>

lemma set_strip: "set (strip s) \<subseteq> set s"
proof -
  have "set (strip s) = set (dropWhile isspace (rev (dropWhile isspace s)))"
    by (simp add: strip_def)
  also have "\<dots> \<subseteq> set (rev (dropWhile isspace s))"
    by (meson set_dropWhileD subsetI)
  also have "\<dots> \<subseteq> set s"
    by (auto dest: set_dropWhileD)
  finally show ?thesis .
qed

lemma dropWhile_none: "\<forall>c \<in> set s. \<not> P c \<Longrightarrow> dropWhile P s = s"
  by (cases s) auto

lemma strip_no_space: "\<forall>c \<in> set s. \<not> isspace c \<Longrightarrow> strip s = s"
  by (simp add: strip_def dropWhile_none)

lemma normalize_answer_Str:
  "normalize_answer lower (Str s) =
     filter (\<lambda>c. \<not> isspace c) (filter (\<lambda>c. \<not> punct c) (strip (lower s)))"
  by (simp add: normalize_answer_def)

lemma normalize_answer_fixed:
  assumes "lower r = r" and "\<forall>c \<in> set r. \<not> isspace c \<and> \<not> punct c"
  shows "normalize_answer lower (Str r) = r"
proof -
  from assms(2) have "strip r = r" by (simp add: strip_no_space)
  moreover from assms(2) have "filter (\<lambda>c. \<not> punct c) r = r" by (simp add: filter_id_conv)
  moreover from assms(2) have "filter (\<lambda>c. \<not> isspace c) r = r" by (simp add: filter_id_conv)
  ultimately show ?thesis using assms(1) by (simp add: normalize_answer_Str)
qed

lemma lower_stable_ascii_lower: "lower_stable ascii_lower"
  unfolding lower_stable_def
proof (intro allI impI)
  fix s t :: ustr
  assume sub: "set t \<subseteq> set (ascii_lower s)"
  have "\<And>c. c \<in> set (ascii_lower s) \<Longrightarrow> \<not> (65 \<le> c \<and> c \<le> 90)"
    by (auto simp: ascii_lower_def)
  with sub have "\<And>c. c \<in> set t \<Longrightarrow> \<not> (65 \<le> c \<and> c \<le> 90)" by blast
  then show "ascii_lower t = t"
    unfolding ascii_lower_def by (intro map_idI) auto
qed

lemma emit_fields [simp]:
  "sessions (emit st u m) = sessions st"
  "timers (emit st u m) = timers st"
  "outbox (emit st u m) = outbox st @ [(u, m)]"
  by (simp_all add: emit_def)

lemma send_task_absent: "sessions st u = None \<Longrightarrow> send_task st u = st"
  by (subst send_task.simps) simp

lemma send_task_exhausted:
  "sessions st u = Some s \<Longrightarrow> length (tasks s) \<le> current s \<Longrightarrow> send_task st u = show_results st u"
  by (subst send_task.simps) simp

lemma send_task_choice:
  "sessions st u = Some s \<Longrightarrow> current s < length (tasks s) \<Longrightarrow>
   get_or (task_type (tasks s ! current s)) (Str (U ''choice'')) = Str (U ''choice'') \<Longrightarrow>
   send_task st u = emit st u (ChoiceQuestion
      (py_str (get_or (question (tasks s ! current s)) (Str question_missing)))
      (map py_str (options (tasks s ! current s))))"
  by (subst send_task.simps) (simp add: Let_def)

lemma send_task_text:
  "sessions st u = Some s \<Longrightarrow> current s < length (tasks s) \<Longrightarrow>
   get_or (task_type (tasks s ! current s)) (Str (U ''choice'')) = Str (U ''text'') \<Longrightarrow>
   send_task st u = emit (st\<lparr>sessions := (sessions st)(u \<mapsto> s\<lparr>waiting_text := True\<rparr>)\<rparr>) u
      (TextQuestion (py_str (get_or (question (tasks s ! current s)) (Str question_missing))))"
  by (subst send_task.simps) (simp add: Let_def U_def)

lemma send_task_other:
  "sessions st u = Some s \<Longrightarrow> current s < length (tasks s) \<Longrightarrow>
   get_or (task_type (tasks s ! current s)) (Str (U ''choice'')) \<noteq> Str (U ''choice'') \<Longrightarrow>
   get_or (task_type (tasks s ! current s)) (Str (U ''choice'')) \<noteq> Str (U ''text'') \<Longrightarrow>
   send_task st u = send_task
      ((emit st u (PlainQuestion
           (py_str (get_or (question (tasks s ! current s)) (Str question_missing)))))
         \<lparr>sessions := (sessions st)(u \<mapsto> s\<lparr>current := current s + 1\<rparr>)\<rparr>) u"
  by (subst send_task.simps) (simp add: Let_def)

lemma presented_exhausted:
  assumes "sessions st u = Some s" "length (tasks s) \<le> current s"
  shows "presented st u s (show_results st u)"
proof -
  have "outbox (show_results st u)
      = outbox st @ map (Pair u) [Results (correct s) (length (tasks s)) (wrong s)]"
    using assms by (simp add: show_results_def)
  moreover have "sessions (show_results st u) u = None"
    using assms by (simp add: show_results_def)
  moreover have "timers (show_results st u) = timers st"
    using assms by (simp add: show_results_def)
  moreover have "\<forall>v. v \<noteq> u \<longrightarrow> sessions (show_results st u) v = sessions st v"
    using assms by (simp add: show_results_def)
  ultimately show ?thesis
    unfolding presented_def by (intro conjI exI[of _ "[Results (correct s) (length (tasks s)) (wrong s)]"]) simp_all
qed

lemma presented_emit:
  assumes "sessions st u = Some s" "current s < length (tasks s)" "\<not> is_results m"
  shows "presented st u s (emit st u m)"
  unfolding presented_def using assms
  by (intro conjI exI[of _ "[m]"]) simp_all

lemma presented_emit_waiting:
  assumes "sessions st u = Some s" "current s < length (tasks s)" "\<not> is_results m"
  shows "presented st u s (emit (st\<lparr>sessions := (sessions st)(u \<mapsto> s\<lparr>waiting_text := True\<rparr>)\<rparr>) u m)"
  unfolding presented_def using assms
  by (intro conjI exI[of _ "[m]"]) simp_all

lemma presented_after_plain:
  assumes "sessions st u = Some s"
    and "presented ((emit st u m)\<lparr>sessions := (sessions st)(u \<mapsto> s\<lparr>current := current s + 1\<rparr>)\<rparr>) u
           (s\<lparr>current := current s + 1\<rparr>) st'"
    and "\<not> is_results m"
  shows "presented st u s st'"
proof -
  from assms(2) obtain ms where
    t: "timers st' = timers st" and
    o: "\<forall>v. v \<noteq> u \<longrightarrow> sessions st' v = sessions st v" and
    ms: "outbox st' = outbox st @ map (Pair u) (m # ms)" and
    d: "(sessions st' u = None \<and>
          filter is_results ms = [Results (correct s) (length (tasks s)) (wrong s)]) \<or>
         (\<exists>s'. sessions st' u = Some s' \<and> tasks s' = tasks s \<and> correct s' = correct s \<and>
            wrong s' = wrong s \<and> current s \<le> current s' \<and> current s' < length (tasks s') \<and>
            filter is_results ms = [])"
    unfolding presented_def by auto
  from d assms(3) have
    "(sessions st' u = None \<and>
          filter is_results (m # ms) = [Results (correct s) (length (tasks s)) (wrong s)]) \<or>
         (\<exists>s'. sessions st' u = Some s' \<and> tasks s' = tasks s \<and> correct s' = correct s \<and>
            wrong s' = wrong s \<and> current s \<le> current s' \<and> current s' < length (tasks s') \<and>
            filter is_results (m # ms) = [])"
    by simp
  with t o ms show ?thesis unfolding presented_def by blast
qed

lemma send_task_presented:
  "sessions st u = Some s \<Longrightarrow> presented st u s (send_task st u)"
proof (induction st u arbitrary: s rule: send_task.induct)
  case (1 st u)
  let ?task = "tasks s ! current s"
  let ?ttype = "get_or (task_type ?task) (Str (U ''choice''))"
  let ?q = "py_str (get_or (question ?task) (Str question_missing))"
  consider (exhausted) "length (tasks s) \<le> current s"
    | (kind_choice) "current s < length (tasks s)" "?ttype = Str (U ''choice'')"
    | (kind_text) "current s < length (tasks s)" "?ttype = Str (U ''text'')"
    | (kind_other) "current s < length (tasks s)" "?ttype \<noteq> Str (U ''choice'')" "?ttype \<noteq> Str (U ''text'')"
    by (meson not_le_imp_less)
  then show ?case
  proof cases
    case exhausted
    with "1.prems" show ?thesis
      by (simp add: send_task_exhausted presented_exhausted)
  next
    case kind_choice
    with "1.prems" show ?thesis
      by (simp add: send_task_choice presented_emit)
  next
    case kind_text
    with "1.prems" show ?thesis
      by (simp add: send_task_text presented_emit_waiting)
  next
    case kind_other
    let ?st1 = "(emit st u (PlainQuestion ?q))\<lparr>sessions := (sessions st)(u \<mapsto> s\<lparr>current := current s + 1\<rparr>)\<rparr>"
    have p1: "presented ?st1 u (s\<lparr>current := current s + 1\<rparr>) (send_task ?st1 u)"
      using "1.prems" kind_other by (intro "1.IH"[of s]) simp_all
    have p2: "presented st u s (send_task ?st1 u)"
      by (rule presented_after_plain[OF "1.prems" p1]) simp
    have "send_task st u = send_task ?st1 u"
      using "1.prems" kind_other by (intro send_task_other)
    with p2 show ?thesis by simp
  qed
qed

lemma reports_outbox_append:
  "outbox st' = outbox st @ map (Pair v) ms \<Longrightarrow>
   reports u st' = reports u st @ (if v = u then filter is_results ms else [])"
  by (simp add: reports_def filter_map comp_def)

lemma reports_outbox_eq: "outbox st' = outbox st \<Longrightarrow> reports u st' = reports u st"
  by (simp add: reports_def)

lemma user_effect_same:
  "sessions st' u = sessions st u \<Longrightarrow> reports u st' = reports u st \<Longrightarrow> user_effect u st st'"
  by (auto simp: user_effect_def tracked_def split: option.splits)

lemma user_effect_refl: "user_effect u st st"
  by (simp add: user_effect_same)

lemma user_effect_trans:
  "user_effect u a b \<Longrightarrow> user_effect u b c \<Longrightarrow> user_effect u a c"
  unfolding user_effect_def tracked_def
  by (cases "sessions a u"; cases "sessions b u") auto

lemma tracked_step: "tracked u n r st \<Longrightarrow> user_effect u st st' \<Longrightarrow> tracked u n r st'"
  unfolding user_effect_def tracked_def
  by (cases "sessions st u") auto

lemma reports_emit:
  "reports u (emit st v m) = reports u st @ (if v = u \<and> is_results m then [m] else [])"
  by (simp add: reports_def)

lemma user_effect_emit: "\<not> is_results m \<Longrightarrow> user_effect u st (emit st v m)"
  by (intro user_effect_same) (simp_all add: reports_emit)

lemma user_effect_show_results: "user_effect u st (show_results st v)"
proof (cases "sessions st v")
  case None
  then show ?thesis by (simp add: show_results_def user_effect_refl)
next
  case (Some s)
  show ?thesis
  proof (cases "v = u")
    case True
    with Some show ?thesis
      by (simp add: user_effect_def tracked_def show_results_def reports_emit reports_def)
  next
    case False
    with Some show ?thesis
      by (intro user_effect_same) (simp_all add: show_results_def reports_emit reports_def)
  qed
qed

lemma user_effect_main_menu: "user_effect u st (main_menu st v)"
proof (cases "v = u")
  case True
  then show ?thesis
    by (cases "sessions st u")
       (simp_all add: user_effect_def tracked_def main_menu_def reports_emit reports_def)
next
  case False
  then show ?thesis
    by (intro user_effect_same) (simp_all add: main_menu_def reports_emit reports_def)
qed

lemma user_effect_test_timer: "user_effect u st (test_timer st v)"
  by (simp add: test_timer_def user_effect_show_results user_effect_refl)

lemma user_effect_presented:
  assumes "presented st v s st'" and "sessions st v = Some s"
  shows "user_effect u st st'"
proof -
  from assms(1) obtain ms where
    o: "\<forall>w. w \<noteq> v \<longrightarrow> sessions st' w = sessions st w" and
    ms: "outbox st' = outbox st @ map (Pair v) ms" and
    d: "(sessions st' v = None \<and>
          filter is_results ms = [Results (correct s) (length (tasks s)) (wrong s)]) \<or>
         (\<exists>s'. sessions st' v = Some s' \<and> tasks s' = tasks s \<and> correct s' = correct s \<and>
            wrong s' = wrong s \<and> current s \<le> current s' \<and> current s' < length (tasks s') \<and>
            filter is_results ms = [])"
    unfolding presented_def by blast
  note r = reports_outbox_append[OF ms, of u]
  show ?thesis
  proof (cases "v = u")
    case False
    with o r show ?thesis by (intro user_effect_same) simp_all
  next
    case True
    with d r assms(2) show ?thesis
      unfolding user_effect_def tracked_def by auto
  qed
qed

lemma user_effect_send_task: "user_effect u st (send_task st v)"
proof (cases "sessions st v")
  case None
  then show ?thesis by (simp add: send_task_absent user_effect_refl)
next
  case (Some s)
  then show ?thesis
    by (intro user_effect_presented[OF send_task_presented]) simp_all
qed

text \<open>
  A handler updates the session of its user, keeping the length of the queue, sends a
  message that is no report, and presents the next task.
\<close>

lemma user_effect_update:
  assumes "sessions st v = Some s" "length (tasks s') = length (tasks s)" "\<not> is_results m"
  shows "user_effect u st ((emit st v m)\<lparr>sessions := (sessions st)(v \<mapsto> s')\<rparr>)"
  using assms unfolding user_effect_def tracked_def
  by (cases "sessions st u") (auto simp: reports_def)

lemma user_effect_update_quiet:
  assumes "sessions st v = Some s" "length (tasks s') = length (tasks s)"
  shows "user_effect u st (st\<lparr>sessions := (sessions st)(v \<mapsto> s')\<rparr>)"
  using assms unfolding user_effect_def tracked_def
  by (cases "sessions st u") (auto simp: reports_def)

lemma user_effect_process_answer:
  assumes "process_answer lower st v label = Inr st'"
  shows "user_effect u st st'"
proof (cases "sessions st v")
  case None
  with assms show ?thesis by (auto simp: process_answer_def user_effect_emit)
next
  case (Some s)
  with assms obtain s' m where
    "st' = send_task ((emit st v m)\<lparr>sessions := (sessions st)(v \<mapsto> s')\<rparr>) v"
    "length (tasks s') = length (tasks s)" "\<not> is_results m"
    by (auto simp: process_answer_def Let_def split: if_splits)
  with Some show ?thesis
    using user_effect_trans[OF user_effect_update user_effect_send_task] by blast
qed

lemma user_effect_process_text_answer:
  assumes "process_text_answer lower st v text = Inr st'"
  shows "user_effect u st st'"
proof (cases "sessions st v")
  case None
  with assms show ?thesis by (auto simp: process_text_answer_def user_effect_refl)
next
  case (Some s)
  show ?thesis
  proof (cases "waiting_text s")
    case False
    with Some assms show ?thesis by (auto simp: process_text_answer_def user_effect_refl)
  next
    case True
    with Some assms obtain s' m where
      "st' = send_task ((emit st v m)\<lparr>sessions := (sessions st)(v \<mapsto> s')\<rparr>) v"
      "length (tasks s') = length (tasks s)" "\<not> is_results m"
      by (auto simp: process_text_answer_def Let_def split: if_splits option.splits)
    with Some show ?thesis
      using user_effect_trans[OF user_effect_update user_effect_send_task] by blast
  qed
qed

lemma user_effect_skip_task:
  assumes "skip_task st v = Inr st'"
  shows "user_effect u st st'"
proof (cases "sessions st v")
  case None
  with assms show ?thesis by (auto simp: skip_task_def user_effect_refl)
next
  case (Some s)
  with assms obtain s' where
    "st' = send_task (st\<lparr>sessions := (sessions st)(v \<mapsto> s')\<rparr>) v"
    "length (tasks s') = length (tasks s)"
    by (auto simp: skip_task_def Let_def split: if_splits)
  with Some show ?thesis
    using user_effect_trans[OF user_effect_update_quiet user_effect_send_task] by blast
qed

lemma user_effect_register_user: "user_effect u st (register_user st v res upd_error)"
  unfolding register_user_def
  by (cases res)
     (auto intro: user_effect_emit user_effect_trans[OF user_effect_emit user_effect_main_menu])

lemma user_effect_begin_test_other:
  assumes "v \<noteq> u"
  shows "user_effect u st (begin_test now st v res bank rnd)"
proof (cases "res = Registered \<and> load_tasks_from_supabase bank \<noteq> []")
  case False
  then show ?thesis
    by (cases res) (auto simp: begin_test_def user_effect_emit)
next
  case True
  let ?st1 = "st\<lparr>sessions := (sessions st)(v \<mapsto>
       \<lparr>tasks = shuffle rnd (load_tasks_from_supabase bank), current = 0, correct = 0,
        wrong = [], waiting_text = False\<rparr>),
     timers := timers st @ [(now + 600, v)]\<rparr>"
  from assms have "user_effect u st ?st1"
    by (intro user_effect_same) (simp_all add: reports_def)
  then have "user_effect u st (send_task ?st1 v)"
    by (rule user_effect_trans[OF _ user_effect_send_task])
  with True show ?thesis by (simp add: begin_test_def)
qed

lemma user_effect_handle:
  assumes "\<not> starts u ev" and "handle lower now st ev = Inr st'"
  shows "user_effect u st st'"
  using assms
  by (cases ev)
     (auto simp: user_effect_register_user user_effect_begin_test_other
        user_effect_process_answer user_effect_skip_task user_effect_main_menu
        user_effect_process_text_answer)

lemma user_effect_fire_all: "user_effect u st (fire_all st us)"
proof (induction us arbitrary: st)
  case Nil
  show ?case by (simp add: user_effect_refl)
next
  case (Cons v us)
  from user_effect_test_timer Cons.IH show ?case
    by (simp only: fire_all.simps) (rule user_effect_trans)
qed

lemma user_effect_wake: "user_effect u st (wake now st)"
proof -
  have "user_effect u st (st\<lparr>timers := filter (\<lambda>(t, u). \<not> t \<le> now) (timers st)\<rparr>)"
    by (intro user_effect_same) (simp_all add: reports_def)
  then show ?thesis
    unfolding wake_def Let_def by (rule user_effect_trans[OF _ user_effect_fire_all])
qed

lemma user_effect_step:
  assumes "\<not> starts u (snd te)"
  shows "user_effect u st (step lower st te)"
proof (cases "handle lower (fst te) (wake (fst te) st) (snd te)")
  case (Inl e)
  then show ?thesis by (simp add: step_def user_effect_wake)
next
  case (Inr st2)
  with assms have "user_effect u (wake (fst te) st) st2"
    by (intro user_effect_handle)
  with user_effect_wake have "user_effect u st st2" by (rule user_effect_trans)
  with Inr show ?thesis by (simp add: step_def)
qed

lemma user_effect_run:
  "\<forall>te \<in> set tes. \<not> starts u (snd te) \<Longrightarrow> user_effect u st (run lower st tes)"
proof (induction tes arbitrary: st)
  case Nil
  show ?case by (simp add: user_effect_refl)
next
  case (Cons te tes)
  then have "user_effect u st (step lower st te)"
    and "user_effect u (step lower st te) (run lower (step lower st te) tes)"
    by (simp_all add: user_effect_step)
  then show ?case by (simp only: run.simps) (rule user_effect_trans)
qed

lemma length_shuffle_from: "length (shuffle_from rnd k x) = length x"
  by (induction k arbitrary: x) (simp_all add: Let_def)

lemma length_shuffle: "length (shuffle rnd x) = length x"
  by (simp add: shuffle_def length_shuffle_from)

lemma mset_shuffle_from: "k < length x \<Longrightarrow> mset (shuffle_from rnd k x) = mset x"
proof (induction k arbitrary: x)
  case 0
  show ?case by simp
next
  case (Suc k)
  then have lt: "Suc k < length x" by simp
  let ?j = "rnd (Suc k + 1) mod (Suc k + 1)"
  have "?j < Suc k + 1" by (intro mod_less_divisor) simp
  with lt have j: "?j < length x" by linarith
  let ?y = "x[Suc k := x ! ?j, ?j := x ! Suc k]"
  have "mset ?y = mset x" using lt j by (simp add: mset_swap)
  moreover have "mset (shuffle_from rnd k ?y) = mset ?y"
    using lt by (intro Suc.IH) simp
  ultimately show ?case by (simp add: Let_def)
qed

lemma mset_shuffle: "mset (shuffle rnd x) = mset x"
proof (cases x)
  case Nil
  then show ?thesis by (simp add: shuffle_def)
next
  case (Cons a y)
  then show ?thesis by (simp add: shuffle_def mset_shuffle_from)
qed

lemma in_bounds_presented:
  assumes "presented st v s st'"
    and "\<forall>w t. w \<noteq> v \<longrightarrow> sessions st w = Some t \<longrightarrow> current t < length (tasks t)"
  shows "in_bounds st'"
  using assms unfolding presented_def in_bounds_def
  by (metis option.distinct(1) option.inject)

lemma in_bounds_send_task:
  assumes "\<forall>w t. w \<noteq> v \<longrightarrow> sessions st w = Some t \<longrightarrow> current t < length (tasks t)"
  shows "in_bounds (send_task st v)"
proof (cases "sessions st v")
  case None
  with assms show ?thesis
    unfolding in_bounds_def by (metis send_task_absent option.distinct(1))
next
  case (Some s)
  then have "presented st v s (send_task st v)" by (rule send_task_presented)
  then show ?thesis using assms by (rule in_bounds_presented)
qed

lemma in_bounds_emit: "in_bounds (emit st v m) = in_bounds st"
  by (simp add: in_bounds_def)

lemma in_bounds_remove:
  "in_bounds st \<Longrightarrow> in_bounds (st\<lparr>sessions := (sessions st)(v := None)\<rparr>)"
  by (simp add: in_bounds_def)

lemma in_bounds_show_results: "in_bounds st \<Longrightarrow> in_bounds (show_results st v)"
  by (cases "sessions st v") (simp_all add: show_results_def in_bounds_emit in_bounds_remove)

lemma in_bounds_main_menu: "in_bounds st \<Longrightarrow> in_bounds (main_menu st v)"
  by (simp add: main_menu_def in_bounds_emit in_bounds_remove)

lemma in_bounds_test_timer: "in_bounds st \<Longrightarrow> in_bounds (test_timer st v)"
  by (simp add: test_timer_def in_bounds_show_results)

lemma in_bounds_register_user: "in_bounds st \<Longrightarrow> in_bounds (register_user st v res upd_error)"
  by (cases res) (simp_all add: register_user_def in_bounds_emit in_bounds_main_menu)

lemma in_bounds_begin_test:
  assumes "in_bounds st"
  shows "in_bounds (begin_test now st v res bank rnd)"
proof (cases "res = Registered \<and> load_tasks_from_supabase bank \<noteq> []")
  case False
  with assms show ?thesis
    by (cases res) (auto simp: begin_test_def in_bounds_emit)
next
  case True
  have "in_bounds (send_task (st\<lparr>sessions := (sessions st)(v \<mapsto>
       \<lparr>tasks = shuffle rnd (load_tasks_from_supabase bank), current = 0, correct = 0,
        wrong = [], waiting_text = False\<rparr>),
     timers := timers st @ [(now + 600, v)]\<rparr>) v)"
    using assms by (intro in_bounds_send_task) (simp add: in_bounds_def)
  with True show ?thesis by (simp add: begin_test_def)
qed

lemma in_bounds_process_answer:
  assumes "in_bounds st"
  shows "\<exists>st'. process_answer lower st v label = Inr st' \<and> in_bounds st'"
proof (cases "sessions st v")
  case None
  with assms show ?thesis by (simp add: process_answer_def in_bounds_emit)
next
  case (Some s)
  with assms have b: "current s < length (tasks s)" by (simp add: in_bounds_def)
  have "\<And>s' m. in_bounds (send_task ((emit st v m)\<lparr>sessions := (sessions st)(v \<mapsto> s')\<rparr>) v)"
    using assms by (intro in_bounds_send_task) (simp add: in_bounds_def)
  with Some b show ?thesis by (simp add: process_answer_def Let_def)
qed

lemma in_bounds_skip_task:
  assumes "in_bounds st"
  shows "\<exists>st'. skip_task st v = Inr st' \<and> in_bounds st'"
proof (cases "sessions st v")
  case None
  with assms show ?thesis by (simp add: skip_task_def)
next
  case (Some s)
  with assms have b: "current s < length (tasks s)" by (simp add: in_bounds_def)
  have "\<And>s'. in_bounds (send_task (st\<lparr>sessions := (sessions st)(v \<mapsto> s')\<rparr>) v)"
    using assms by (intro in_bounds_send_task) (simp add: in_bounds_def)
  with Some b show ?thesis by (simp add: skip_task_def Let_def)
qed

lemma in_bounds_process_text_answer:
  assumes "in_bounds st"
  shows "process_text_answer lower st v text = Inl AttributeError \<or>
         (\<exists>st'. process_text_answer lower st v text = Inr st' \<and> in_bounds st')"
proof (cases "sessions st v")
  case None
  with assms show ?thesis by (simp add: process_text_answer_def)
next
  case (Some s)
  with assms have b: "current s < length (tasks s)" by (simp add: in_bounds_def)
  have "\<And>s' m. in_bounds (send_task ((emit st v m)\<lparr>sessions := (sessions st)(v \<mapsto> s')\<rparr>) v)"
    using assms by (intro in_bounds_send_task) (simp add: in_bounds_def)
  with Some b assms show ?thesis
    by (cases "text") (simp_all add: process_text_answer_def Let_def)
qed

lemma in_bounds_handle:
  assumes "in_bounds st"
  shows "handle lower now st ev = Inl AttributeError \<or>
         (\<exists>st'. handle lower now st ev = Inr st' \<and> in_bounds st')"
  using assms in_bounds_process_answer[of st lower] in_bounds_skip_task[of st]
    in_bounds_process_text_answer[of st lower]
  by (cases ev)
     (simp_all add: in_bounds_register_user in_bounds_begin_test in_bounds_main_menu)

lemma in_bounds_fire_all: "in_bounds st \<Longrightarrow> in_bounds (fire_all st us)"
  by (induction us arbitrary: st) (simp_all add: in_bounds_test_timer)

lemma in_bounds_wake: "in_bounds st \<Longrightarrow> in_bounds (wake now st)"
  unfolding wake_def Let_def by (intro in_bounds_fire_all) (simp add: in_bounds_def)

lemma in_bounds_step: "in_bounds st \<Longrightarrow> in_bounds (step lower st te)"
  using in_bounds_handle[of "wake (fst te) st" lower "fst te" "snd te"]
  by (auto simp: step_def in_bounds_wake)

lemma in_bounds_run: "in_bounds st \<Longrightarrow> in_bounds (run lower st tes)"
  by (induction tes arbitrary: st) (simp_all add: in_bounds_step)

lemma in_bounds_init: "in_bounds init"
  by (simp add: in_bounds_def init_def)

lemma totals_snoc_cases:
  assumes "r' = r \<or> (\<exists>c w. r' = r @ [Results c n w])"
  shows "totals (drop (length r) r') = [] \<or> totals (drop (length r) r') = [n]"
  using assms by auto

lemma tracked_reports:
  "tracked u n r st \<Longrightarrow> reports u st = r \<or> (\<exists>c w. reports u st = r @ [Results c n w])"
  unfolding tracked_def by blast

lemma U_simps: "U [] = []" "U (c # cs) = of_char c # U cs"
  by (simp_all add: U_def)

lemma shuffle_from_rnd_last: "k < length x \<Longrightarrow> shuffle_from rnd_last k x = x"
  by (induction k arbitrary: x) (simp_all add: rnd_last_def Let_def)

lemma shuffle_rnd_last: "shuffle rnd_last x = x"
  by (cases x) (simp_all add: shuffle_def shuffle_from_rnd_last)

text \<open>The equations that evaluate a run on concrete events.\<close>

lemmas eval_defs = step_def wake_def begin_test_def load_tasks_from_supabase_def shuffle_rnd_last
  init_def process_text_answer_def process_answer_def skip_task_def register_user_def Let_def
  send_task.simps emit_def get_or_def show_results_def main_menu_def test_timer_def
  normalize_answer_def ascii_lower_def strip_def isspace_def punct_def U_simps
  task1_def task2_def task3_def py_None_def reports_def session_after_def
  button_matches_def text_matches_def sent_after_def demo_replies_def text_event_def
  code_shaped_def code_body_def code_char_def

text \<open>The two answer handlers, as the scoring rule followed by the next presentation.\<close>

lemma scored_as_hit:
  "scored_as s True
     (s\<lparr>correct := correct s + 1, current := current s + 1, waiting_text := False\<rparr>)"
  by (simp add: scored_as_def)

lemma scored_as_miss:
  "scored_as s False
     (s\<lparr>wrong := wrong s @ [(get_or (question (tasks s ! current s)) (Str []),
                             get_or (explanation (tasks s ! current s)) (Str []))],
        current := current s + 1, waiting_text := False\<rparr>)"
  by (simp add: scored_as_def)

lemma process_answer_scored:
  assumes "sessions st u = Some s" and "current s < length (tasks s)"
  shows "\<exists>s'. scored_as s (button_matches lower (tasks s ! current s) label) s' \<and>
            process_answer lower st u label
              = Inr (send_task
                  ((emit st u
                      (if button_matches lower (tasks s ! current s) label then Correct
                       else Incorrect))
                     \<lparr>sessions := (sessions st)(u \<mapsto> s')\<rparr>) u)"
proof (cases "button_matches lower (tasks s ! current s) label")
  case True
  with assms scored_as_hit[of s] show ?thesis
    by (intro exI[of _ "s\<lparr>correct := correct s + 1, current := current s + 1,
          waiting_text := False\<rparr>"])
       (simp add: process_answer_def button_matches_def Let_def)
next
  case False
  with assms scored_as_miss[of s] show ?thesis
    by (intro exI[of _ "s\<lparr>wrong := wrong s @
            [(get_or (question (tasks s ! current s)) (Str []),
              get_or (explanation (tasks s ! current s)) (Str []))],
          current := current s + 1, waiting_text := False\<rparr>"])
       (simp add: process_answer_def button_matches_def Let_def)
qed

lemma process_text_answer_scored:
  assumes "sessions st u = Some s" and "current s < length (tasks s)" and "waiting_text s"
  shows "\<exists>s'. scored_as s (text_matches lower (tasks s ! current s) txt) s' \<and>
            process_text_answer lower st u (Some txt)
              = Inr (send_task
                  ((emit st u
                      (if text_matches lower (tasks s ! current s) txt then Correct
                       else Incorrect))
                     \<lparr>sessions := (sessions st)(u \<mapsto> s')\<rparr>) u)"
proof (cases "text_matches lower (tasks s ! current s) txt")
  case True
  with assms scored_as_hit[of s] show ?thesis
    by (intro exI[of _ "s\<lparr>correct := correct s + 1, current := current s + 1,
          waiting_text := False\<rparr>"])
       (simp add: process_text_answer_def text_matches_def Let_def)
next
  case False
  with assms scored_as_miss[of s] show ?thesis
    by (intro exI[of _ "s\<lparr>wrong := wrong s @
            [(get_or (question (tasks s ! current s)) (Str []),
              get_or (explanation (tasks s ! current s)) (Str []))],
          current := current s + 1, waiting_text := False\<rparr>"])
       (simp add: process_text_answer_def text_matches_def Let_def)
qed

lemma skipped_queue_pop_append:
  assumes "i < length q"
  shows "skipped_queue q i (take i q @ drop (Suc i) q @ [q ! i])"
proof -
  have "Suc i = length q \<Longrightarrow> take i q @ [q ! i] = q"
    using assms by (metis take_Suc_conv_app_nth take_all order_refl)
  moreover have "Suc i < length q \<Longrightarrow> (take i q @ drop (Suc i) q @ [q ! i]) ! i = q ! Suc i"
    using assms by (simp add: nth_append)
  ultimately show ?thesis
    using assms by (simp add: skipped_queue_def)
qed

lemma text_event_plain:
  "\<not> code_shaped txt \<Longrightarrow> txt \<noteq> U ''/test'' \<Longrightarrow> text_event u txt w = TextMsg u (Some txt)"
  by (simp add: text_event_def)

section \<open>Answer normalisation is idempotent\<close>

text \<open>
  C8. \<^verbatim>\<open>normalize_answer\<close> is idempotent: normalising a normalised answer gives it back,
  for every input, text or not. The only fact used of \<^verbatim>\<open>str.lower\<close> is that it has
  nothing left to lower in text made of already lowered code points.
\<close>

theorem normalize_answer_idempotent:
  assumes "lower_stable lower"
  shows "normalize_answer lower (Str (normalize_answer lower v)) = normalize_answer lower v"
proof (cases v)
  case (NonStr r)
  from assms have "lower [] = []" unfolding lower_stable_def by simp
  then have "normalize_answer lower (Str []) = []"
    by (intro normalize_answer_fixed) simp_all
  with NonStr show ?thesis by (simp add: normalize_answer_def)
next
  case (Str s)
  let ?r = "normalize_answer lower (Str s)"
  have "set ?r \<subseteq> set (lower s)"
    using set_strip [of "lower s"] by (auto simp: normalize_answer_Str)
  with assms have "lower ?r = ?r" unfolding lower_stable_def by blast
  moreover have "\<forall>c \<in> set ?r. \<not> isspace c \<and> \<not> punct c"
    by (simp add: normalize_answer_Str)
  ultimately have "normalize_answer lower (Str ?r) = ?r"
    by (rule normalize_answer_fixed)
  with Str show ?thesis by simp
qed

theorem normalize_answer_idempotent_witness:
  "lower_stable ascii_lower \<and>
   normalize_answer ascii_lower (Str (U ''  A-B?  '')) = U ''ab'' \<and>
   normalize_answer ascii_lower (Str (normalize_answer ascii_lower (Str (U ''  A-B?  ''))))
     = normalize_answer ascii_lower (Str (U ''  A-B?  ''))"
proof -
  have "normalize_answer ascii_lower (Str (U ''  A-B?  '')) = U ''ab''"
    by (simp add: eval_defs)
  with normalize_answer_idempotent [OF lower_stable_ascii_lower, of "Str (U ''  A-B?  '')"]
    lower_stable_ascii_lower
  show ?thesis by simp
qed

section \<open>The position stays inside the queue\<close>

text \<open>
  C9. In every state the bot reaches from its start, by whatever events at whatever times,
  each stored session has its position strictly below the length of its queue, also at
  the moment an event is dispatched (after the timers due by then have fired); so no
  handler raises \<^verbatim>\<open>IndexError\<close> at its unguarded indexing or \<^verbatim>\<open>pop\<close>. A position equal
  to the queue length exists only inside a handler: presenting the next task then
  removes the session.
\<close>

theorem position_in_bounds:
  "(\<forall>u s. sessions (run lower init tes) u = Some s \<longrightarrow> current s < length (tasks s)) \<and>
   (\<forall>now u s. sessions (wake now (run lower init tes)) u = Some s \<longrightarrow>
        current s < length (tasks s)) \<and>
   (\<forall>now ev. handle lower now (wake now (run lower init tes)) ev \<noteq> Inl IndexError) \<and>
   (\<forall>st u s. sessions st u = Some s \<and> current s = length (tasks s) \<longrightarrow>
        sessions (send_task st u) u = None)"
proof -
  have r: "in_bounds (run lower init tes)"
    by (simp add: in_bounds_run in_bounds_init)
  then have w: "\<And>now. in_bounds (wake now (run lower init tes))"
    by (rule in_bounds_wake)
  have "\<And>now ev. handle lower now (wake now (run lower init tes)) ev \<noteq> Inl IndexError"
    using in_bounds_handle[OF w, of lower] by (metis Inl_inject py_error.distinct(1) sum.distinct(1))
  moreover have "\<And>st u s. sessions st u = Some s \<Longrightarrow> current s = length (tasks s) \<Longrightarrow>
        sessions (send_task st u) u = None"
    by (simp add: send_task_exhausted show_results_def)
  ultimately show ?thesis using r w unfolding in_bounds_def by blast
qed

theorem position_in_bounds_witness:
  "sessions (run ascii_lower init demo_trace) 7
     = Some \<lparr>tasks = [task1, task2], current = 1, correct = 1, wrong = [], waiting_text = True\<rparr> \<and>
   current \<lparr>tasks = [task1, task2], current = 1, correct = 1, wrong = [], waiting_text = True\<rparr>
     < length (tasks \<lparr>tasks = [task1, task2], current = 1, correct = 1, wrong = [],
         waiting_text = True\<rparr>) \<and>
   handle ascii_lower 6 (wake 6 (run ascii_lower init demo_trace)) (SkipButton 7)
     \<noteq> Inl IndexError"
proof -
  have a: "sessions (run ascii_lower init demo_trace) 7
     = Some \<lparr>tasks = [task1, task2], current = 1, correct = 1, wrong = [], waiting_text = True\<rparr>"
    by (simp add: demo_trace_def eval_defs)
  have "handle ascii_lower 6 (wake 6 (run ascii_lower init demo_trace)) (SkipButton 7)
     \<noteq> Inl IndexError"
    using position_in_bounds [of ascii_lower demo_trace] by blast
  moreover have "current \<lparr>tasks = [task1, task2], current = 1, correct = 1, wrong = [],
        waiting_text = True\<rparr>
     < length (tasks \<lparr>tasks = [task1, task2], current = 1, correct = 1, wrong = [],
         waiting_text = True\<rparr>)"
    using position_in_bounds [of ascii_lower demo_trace] a by blast
  ultimately show ?thesis using a by blast
qed

section \<open>A session is finalized once\<close>

text \<open>
  C2. Finalization, whether by the timer or by exhausting the queue, is \<^verbatim>\<open>show_results\<close>
  on a stored session: it sends exactly one report and removes the session. Afterwards,
  whatever events follow that do not start a new test for the user (timer fires, answers,
  skips, texts, events of other users), the user stays absent from the store and receives
  no second report.
\<close>

theorem session_finalized_once:
  assumes "sessions st u = Some s" and "list_all (\<lambda>te. \<not> starts u (snd te)) tes"
  shows "test_timer st u = show_results st u \<and>
         (length (tasks s) \<le> current s \<longrightarrow> send_task st u = show_results st u) \<and>
         sessions (show_results st u) u = None \<and>
         reports u (show_results st u)
           = reports u st @ [Results (correct s) (length (tasks s)) (wrong s)] \<and>
         sessions (run lower (show_results st u) tes) u = None \<and>
         reports u (run lower (show_results st u) tes) = reports u (show_results st u)"
proof -
  have gone: "sessions (show_results st u) u = None"
    using assms(1) by (simp add: show_results_def)
  have "user_effect u (show_results st u) (run lower (show_results st u) tes)"
    using assms(2) by (intro user_effect_run) (simp add: list_all_iff)
  with gone have "sessions (run lower (show_results st u) tes) u = None \<and>
         reports u (run lower (show_results st u) tes) = reports u (show_results st u)"
    by (simp add: user_effect_def)
  moreover have "reports u (show_results st u)
           = reports u st @ [Results (correct s) (length (tasks s)) (wrong s)]"
    using assms(1) by (simp add: show_results_def reports_emit reports_def)
  moreover have "test_timer st u = show_results st u"
    using assms(1) by (simp add: test_timer_def dom_def)
  moreover have "length (tasks s) \<le> current s \<longrightarrow> send_task st u = show_results st u"
    using assms(1) by (simp add: send_task_exhausted)
  ultimately show ?thesis using gone by blast
qed

theorem session_finalized_once_witness:
  "sessions one_task_state 7
     = Some \<lparr>tasks = [task1], current = 0, correct = 0, wrong = [], waiting_text = False\<rparr> \<and>
   list_all (\<lambda>te. \<not> starts 7 (snd te)) stray_events \<and>
   timers (show_results one_task_state 7) = [(600, 7)] \<and>
   sessions (run ascii_lower (show_results one_task_state 7) stray_events) 7 = None \<and>
   reports 7 (run ascii_lower (show_results one_task_state 7) stray_events) = [Results 0 1 []]"
proof -
  have a: "sessions one_task_state 7
     = Some \<lparr>tasks = [task1], current = 0, correct = 0, wrong = [], waiting_text = False\<rparr>"
    by (simp add: one_task_state_def eval_defs)
  have b: "list_all (\<lambda>te. \<not> starts 7 (snd te)) stray_events"
    by (simp add: stray_events_def)
  have c: "timers (show_results one_task_state 7) = [(600, 7)]"
    by (simp add: one_task_state_def eval_defs)
  have d: "reports 7 one_task_state = []"
    by (simp add: one_task_state_def eval_defs)
  from session_finalized_once [OF a b, of ascii_lower] a b c d show ?thesis by simp
qed

section \<open>The denominator of the final report\<close>

text \<open>
  C4. A test started from \<open>ts\<close>, the non-empty list of tasks loaded from the bank, runs
  under any events at any times that do not start another test for the same user
  (answers, skips, texts, timers, other users). The reports the user receives from the
  start of the test on are at most one, and its denominator is the length of \<open>ts\<close>,
  the length of the queue when the session started.
\<close>

theorem report_total_is_queue_length_at_start:
  assumes "load_tasks_from_supabase bank = ts" and "ts \<noteq> []"
    and "list_all (\<lambda>te. \<not> starts u (snd te)) tes"
  shows "totals (drop (length (reports u st))
           (reports u (run lower (begin_test now st u Registered bank rnd) tes))) = [] \<or>
         totals (drop (length (reports u st))
           (reports u (run lower (begin_test now st u Registered bank rnd) tes))) = [length ts]"
proof -
  let ?s0 = "\<lparr>tasks = shuffle rnd ts, current = 0, correct = 0, wrong = [],
              waiting_text = False\<rparr>"
  let ?st1 = "st\<lparr>sessions := (sessions st)(u \<mapsto> ?s0),
                timers := timers st @ [(now + 600, u)]\<rparr>"
  have "tracked u (length ts) (reports u st) ?st1"
    by (simp add: tracked_def length_shuffle reports_def)
  then have "tracked u (length ts) (reports u st) (send_task ?st1 u)"
    using user_effect_send_task by (rule tracked_step)
  moreover have "begin_test now st u Registered bank rnd = send_task ?st1 u"
    using assms(1,2) by (simp add: begin_test_def)
  ultimately have "tracked u (length ts) (reports u st) (begin_test now st u Registered bank rnd)"
    by simp
  moreover have "user_effect u (begin_test now st u Registered bank rnd)
      (run lower (begin_test now st u Registered bank rnd) tes)"
    using assms(3) by (intro user_effect_run) (simp add: list_all_iff)
  ultimately have "tracked u (length ts) (reports u st)
      (run lower (begin_test now st u Registered bank rnd) tes)"
    by (rule tracked_step)
  then show ?thesis
    by (intro totals_snoc_cases tracked_reports)
qed

theorem report_total_is_queue_length_at_start_witness:
  "load_tasks_from_supabase (Some [task1, task2]) = [task1, task2] \<and> [task1, task2] \<noteq> [] \<and>
   list_all (\<lambda>te. \<not> starts 7 (snd te)) demo_events \<and>
   totals (drop (length (reports 7 init))
     (reports 7 (run ascii_lower (begin_test 0 init 7 Registered (Some [task1, task2]) rnd_last)
        demo_events))) = [length [task1, task2]]"
proof -
  have a: "load_tasks_from_supabase (Some [task1, task2]) = [task1, task2]"
    by (simp add: load_tasks_from_supabase_def)
  have b: "[task1, task2] \<noteq> []" by simp
  have c: "list_all (\<lambda>te. \<not> starts 7 (snd te)) demo_events"
    by (simp add: demo_events_def)
  have d: "reports 7 (run ascii_lower
       (begin_test 0 init 7 Registered (Some [task1, task2]) rnd_last) demo_events)
     = [Results 1 2 [(Str (U ''2+2?''), Str (U ''four''))]]"
    by (simp add: demo_events_def eval_defs)
  have e: "reports 7 init = []" by (simp add: eval_defs)
  from report_total_is_queue_length_at_start [OF a b c, of init ascii_lower 0 rnd_last] a b c
  show ?thesis by (simp add: d e)
qed

section \<open>A timer outlives its session\<close>

text \<open>
  C1. The failing run: user 7 starts a test at time 0, returns to the menu at time 100
  and starts a new test at time 200. The timer of the first test is still pending, next
  to the timer of the second (due at 800). Just before time 600 the second session is
  stored, untouched; at time 600 the first timer fires, finds the user in the store and
  finalizes the second session, 400 seconds after it started, with the report 0/2.
\<close>

theorem stale_timer_ends_newer_session:
  "timers (run ascii_lower init stale_timer_trace) = [(600, 7), (800, 7)] \<and>
   sessions (wake 599 (run ascii_lower init stale_timer_trace)) 7
     = Some \<lparr>tasks = [task1, task2], current = 0, correct = 0, wrong = [], waiting_text = False\<rparr> \<and>
   sessions (wake 600 (run ascii_lower init stale_timer_trace)) 7 = None \<and>
   reports 7 (wake 600 (run ascii_lower init stale_timer_trace)) = [Results 0 2 []] \<and>
   timers (wake 600 (run ascii_lower init stale_timer_trace)) = [(800, 7)]"
  by (simp add: stale_timer_trace_def eval_defs)

section \<open>Scoring an answer\<close>

text \<open>
  C3, as stated, fails: the task stores its answer as the number 4, the user presses the
  button labelled 4. Normalising the label gives \<open>4\<close>, normalising the stored answer (not
  text) gives the empty string, so the two differ; yet the handler, which compares with
  \<^verbatim>\<open>str(correct)\<close>, counts the answer as correct and records no miss.
\<close>

theorem numeric_answer_counterexample:
  "normalize_answer ascii_lower (Str (U ''4''))
     \<noteq> normalize_answer ascii_lower (get_or (answer numeric_task) py_None) \<and>
   sessions numeric_state 7
     = Some \<lparr>tasks = [numeric_task, task2], current = 0, correct = 0, wrong = [],
          waiting_text = False\<rparr> \<and>
   map_option correct (session_after (process_answer ascii_lower numeric_state 7 (U ''4'')) 7)
     = Some 1 \<and>
   map_option wrong (session_after (process_answer ascii_lower numeric_state 7 (U ''4'')) 7)
     = Some []"
  by (simp add: numeric_state_def numeric_task_def eval_defs)

text \<open>
  C3, amended. For a button answer while a session exists, and for a text message that
  reaches the answer handler while the session awaits free text, the handler compares the
  normalised submission with the normalised expected answer, where a button is compared
  against the text rendering \<^verbatim>\<open>str(answer)\<close> of the task's answer (\<^verbatim>\<open>None\<close> when absent)
  and a typed text against the stored answer itself (empty when absent). If they are
  equal the score goes up by one and the misses stay; otherwise the score stays and the
  task's (question, explanation) pair is appended to the misses. In both cases the
  position advances by one and no free text is awaited when the next task is presented.
  The texts that reach the answer handler are those that neither match the code pattern
  nor are the command \<^verbatim>\<open>/test\<close>; this statement says nothing of the others.
\<close>

theorem answer_submission_scored:
  assumes "sessions st u = Some s" and "current s < length (tasks s)"
  shows "(\<exists>s'. scored_as s (button_matches lower (tasks s ! current s) label) s' \<and>
            process_answer lower st u label
              = Inr (send_task
                  ((emit st u
                      (if button_matches lower (tasks s ! current s) label then Correct
                       else Incorrect))
                     \<lparr>sessions := (sessions st)(u \<mapsto> s')\<rparr>) u)) \<and>
         (waiting_text s \<longrightarrow>
           (\<exists>s'. scored_as s (text_matches lower (tasks s ! current s) typed) s' \<and>
              process_text_answer lower st u (Some typed)
                = Inr (send_task
                    ((emit st u
                        (if text_matches lower (tasks s ! current s) typed then Correct
                         else Incorrect))
                       \<lparr>sessions := (sessions st)(u \<mapsto> s')\<rparr>) u))) \<and>
         (waiting_text s \<and> \<not> code_shaped typed \<and> typed \<noteq> U ''/test'' \<longrightarrow>
           (\<exists>s'. scored_as s (text_matches lower (tasks s ! current s) typed) s' \<and>
              handle lower now st (text_event u typed w)
                = Inr (send_task
                    ((emit st u
                        (if text_matches lower (tasks s ! current s) typed then Correct
                         else Incorrect))
                       \<lparr>sessions := (sessions st)(u \<mapsto> s')\<rparr>) u)))"
proof -
  have "handle lower now st (text_event u typed w) = process_text_answer lower st u (Some typed)"
    if "\<not> code_shaped typed" "typed \<noteq> U ''/test''"
    using that by (simp add: text_event_plain)
  with process_answer_scored[OF assms] process_text_answer_scored[OF assms]
  show ?thesis by metis
qed

theorem answer_submission_scored_witness:
  "sessions text_first_state 7 = Some text_first_session \<and>
   current text_first_session < length (tasks text_first_session) \<and>
   waiting_text text_first_session \<and>
   \<not> code_shaped (U '' PARIS! '') \<and> U '' PARIS! '' \<noteq> U ''/test'' \<and>
   \<not> button_matches ascii_lower task2 (U ''Berlin'') \<and>
   text_matches ascii_lower task2 (U '' PARIS! '') \<and>
   (\<exists>s'. scored_as text_first_session False s' \<and>
      process_answer ascii_lower text_first_state 7 (U ''Berlin'')
        = Inr (send_task ((emit text_first_state 7 Incorrect)
                 \<lparr>sessions := (sessions text_first_state)(7 \<mapsto> s')\<rparr>) 7)) \<and>
   (\<exists>s'. scored_as text_first_session True s' \<and>
      process_text_answer ascii_lower text_first_state 7 (Some (U '' PARIS! ''))
        = Inr (send_task ((emit text_first_state 7 Correct)
                 \<lparr>sessions := (sessions text_first_state)(7 \<mapsto> s')\<rparr>) 7)) \<and>
   (\<exists>s'. scored_as text_first_session True s' \<and>
      handle ascii_lower 5 text_first_state (text_event 7 (U '' PARIS! '') demo_replies)
        = Inr (send_task ((emit text_first_state 7 Correct)
                 \<lparr>sessions := (sessions text_first_state)(7 \<mapsto> s')\<rparr>) 7)) \<and>
   session_after
     (handle ascii_lower 5 text_first_state (text_event 7 (U '' PARIS! '') demo_replies)) 7
     = Some \<lparr>tasks = [task2, task1], current = 1, correct = 1, wrong = [], waiting_text = False\<rparr>"
proof -
  have a: "sessions text_first_state 7 = Some text_first_session"
    by (simp add: text_first_state_def text_first_session_def eval_defs)
  have b: "current text_first_session < length (tasks text_first_session)"
    by (simp add: text_first_session_def)
  have c: "waiting_text text_first_session"
    by (simp add: text_first_session_def)
  have t: "tasks text_first_session ! current text_first_session = task2"
    by (simp add: text_first_session_def)
  have r: "\<not> code_shaped (U '' PARIS! '')" "U '' PARIS! '' \<noteq> U ''/test''"
    by (simp_all add: eval_defs)
  have d: "\<not> button_matches ascii_lower task2 (U ''Berlin'')"
    by (simp add: eval_defs)
  have e: "text_matches ascii_lower task2 (U '' PARIS! '')"
    by (simp add: eval_defs)
  have f: "session_after
     (handle ascii_lower 5 text_first_state (text_event 7 (U '' PARIS! '') demo_replies)) 7
     = Some \<lparr>tasks = [task2, task1], current = 1, correct = 1, wrong = [], waiting_text = False\<rparr>"
    by (simp add: text_first_state_def eval_defs)
  from answer_submission_scored [OF a b, where lower = ascii_lower and label = "U ''Berlin''"
      and typed = "U '' PARIS! ''" and now = "5" and w = demo_replies]
    a b c d e f t r
  show ?thesis by simp
qed

section \<open>Skipping a task\<close>

text \<open>
  C5. For a session whose position is inside its queue, the skip handler presents the
  next task from the session in which only the queue and the free-text flag have
  changed: position and score are as before, and the queue has the same length, the same
  tasks before the position, and from the position on the tasks that followed the
  skipped one, in their order, with the skipped task last. So the task now at the
  position is the one that was next, and the skipped task comes up again only after all
  the others that remained; if it was the last one left, the queue is unchanged.
\<close>

theorem skip_moves_task_to_end:
  assumes "sessions st u = Some s" and "current s < length (tasks s)"
  shows "\<exists>q'. skipped_queue (tasks s) (current s) q' \<and>
           skip_task st u
             = Inr (send_task
                 (st\<lparr>sessions := (sessions st)(u \<mapsto> s\<lparr>tasks := q', waiting_text := False\<rparr>)\<rparr>)
                 u)"
  using assms skipped_queue_pop_append[of "current s" "tasks s"]
  by (intro exI[of _ "take (current s) (tasks s) @ drop (Suc (current s)) (tasks s)
        @ [tasks s ! current s]"])
     (simp add: skip_task_def Let_def)

theorem skip_moves_task_to_end_witness:
  "sessions demo_state 7 = Some demo_session \<and>
   current demo_session < length (tasks demo_session) \<and>
   (\<exists>q'. skipped_queue (tasks demo_session) (current demo_session) q' \<and>
      skip_task demo_state 7
        = Inr (send_task
            (demo_state\<lparr>sessions := (sessions demo_state)(7 \<mapsto>
               demo_session\<lparr>tasks := q', waiting_text := False\<rparr>)\<rparr>) 7)) \<and>
   sessions text_first_state 7 = Some text_first_session \<and>
   current text_first_session < length (tasks text_first_session) \<and>
   session_after (skip_task text_first_state 7) 7
     = Some \<lparr>tasks = [task1, task2], current = 0, correct = 0, wrong = [], waiting_text = False\<rparr>"
proof -
  have a: "sessions demo_state 7 = Some demo_session"
    by (simp add: demo_state_def demo_session_def demo_trace_def eval_defs)
  have b: "current demo_session < length (tasks demo_session)"
    by (simp add: demo_session_def)
  have c: "sessions text_first_state 7 = Some text_first_session"
    by (simp add: text_first_state_def text_first_session_def eval_defs)
  have d: "current text_first_session < length (tasks text_first_session)"
    by (simp add: text_first_session_def)
  have e: "session_after (skip_task text_first_state 7) 7
     = Some \<lparr>tasks = [task1, task2], current = 0, correct = 0, wrong = [], waiting_text = False\<rparr>"
    by (simp add: text_first_state_def eval_defs)
  from skip_moves_task_to_end [OF a b] a b c d e show ?thesis by simp
qed

section \<open>Text that is not awaited\<close>

text \<open>
  C6, as stated, fails. User 7 is in a test, at a choice question, so no free text is
  awaited. The user sends the text \<^verbatim>\<open>ABCD12\<close>, the code bound to this user: it matches the
  code pattern and goes to \<^verbatim>\<open>register_user\<close>, which answers and returns to the main menu,
  discarding the session. The user sends \<^verbatim>\<open>/test\<close> instead: a new session replaces the
  stored one. Neither message is ignored, and the session state changes.
\<close>

theorem code_text_discards_session_counterexample:
  "sessions one_task_state 7
     = Some \<lparr>tasks = [task1], current = 0, correct = 0, wrong = [], waiting_text = False\<rparr> \<and>
   text_event 7 (U ''ABCD12'') demo_replies = CodeMsg 7 CodeMine False \<and>
   session_after (handle ascii_lower 50 one_task_state (text_event 7 (U ''ABCD12'') demo_replies)) 7
     = None \<and>
   sent_after (handle ascii_lower 50 one_task_state (text_event 7 (U ''ABCD12'') demo_replies))
     = outbox one_task_state @ [(7, AlreadyRegistered), (7, MainMenu)] \<and>
   session_after (handle ascii_lower 50 one_task_state (text_event 7 (U ''/test'') demo_replies)) 7
     = Some \<lparr>tasks = [task1, task2], current = 0, correct = 0, wrong = [], waiting_text = False\<rparr>"
  by (simp add: one_task_state_def eval_defs)

text \<open>
  C6, amended. A text message that neither matches the code pattern nor is the command
  \<^verbatim>\<open>/test\<close> reaches \<^verbatim>\<open>process_text_answer\<close>. Unless the user has a session that awaits
  free text, that handler returns at once: nothing is sent and the state, sessions
  included, is left as it was. So such a text is evaluated as an answer only for a
  session that awaits free text.
\<close>

theorem text_ignored_unless_awaited:
  assumes "map_option waiting_text (sessions st u) \<noteq> Some True"
  shows "process_text_answer lower st u m = Inr st \<and>
         handle lower now st (TextMsg u m) = Inr st \<and>
         (\<not> code_shaped t \<and> t \<noteq> U ''/test'' \<longrightarrow>
            handle lower now st (text_event u t w) = Inr st)"
proof -
  have "process_text_answer lower st u x = Inr st" for x
    using assms by (cases "sessions st u") (simp_all add: process_text_answer_def)
  then show ?thesis by (simp add: text_event_plain)
qed

theorem text_ignored_unless_awaited_witness:
  "map_option waiting_text (sessions one_task_state 7) \<noteq> Some True \<and>
   sessions one_task_state 7
     = Some \<lparr>tasks = [task1], current = 0, correct = 0, wrong = [], waiting_text = False\<rparr> \<and>
   \<not> code_shaped (U ''four'') \<and> U ''four'' \<noteq> U ''/test'' \<and>
   handle ascii_lower 50 one_task_state (text_event 7 (U ''four'') demo_replies)
     = Inr one_task_state \<and>
   process_text_answer ascii_lower one_task_state 7 (Some (U ''4'')) = Inr one_task_state \<and>
   map_option waiting_text (sessions init 7) \<noteq> Some True \<and>
   sessions init 7 = None \<and>
   handle ascii_lower 50 init (text_event 7 (U ''four'') demo_replies) = Inr init"
proof -
  have a: "sessions one_task_state 7
     = Some \<lparr>tasks = [task1], current = 0, correct = 0, wrong = [], waiting_text = False\<rparr>"
    by (simp add: one_task_state_def eval_defs)
  then have b: "map_option waiting_text (sessions one_task_state 7) \<noteq> Some True"
    by simp
  have c: "sessions init 7 = None" by (simp add: init_def)
  then have d: "map_option waiting_text (sessions init 7) \<noteq> Some True" by simp
  have r: "\<not> code_shaped (U ''four'')" "U ''four'' \<noteq> U ''/test''"
    by (simp_all add: eval_defs)
  from text_ignored_unless_awaited [OF b, where lower = ascii_lower and m = "Some (U ''4'')"
      and now = "50" and t = "U ''four''" and w = demo_replies]
    text_ignored_unless_awaited [OF d, where lower = ascii_lower and m = "Some (U ''4'')"
      and now = "50" and t = "U ''four''" and w = demo_replies] a b c d r
  show ?thesis by blast
qed

section \<open>An empty task bank\<close>

text \<open>
  C7, as stated, fails for a user who is in a test: user 7 has a session and asks for a
  test when the bank holds no task; the handler returns after its message and the user
  is still in the store, with the old session.
\<close>

theorem empty_bank_keeps_session_counterexample:
  "load_tasks_from_supabase (Some []) = [] \<and>
   sessions (begin_test 9 one_task_state 7 Registered (Some []) rnd_last) 7
     = Some \<lparr>tasks = [task1], current = 0, correct = 0, wrong = [], waiting_text = False\<rparr> \<and>
   sessions (begin_test 9 one_task_state 7 Registered (Some []) rnd_last) 7 \<noteq> None"
  by (simp add: one_task_state_def eval_defs)

text \<open>
  C7, amended. When a registered user asks for a test and no task is available (the bank
  is empty or its query failed), the handler sends the one message \<open>NoTasks\<close>, which
  differs from the messages of the other refusals, and changes nothing else: no session
  is created, no timer is started, the store is as before. A user without a session is
  absent from the store afterwards; a user who had a session keeps it.
\<close>

theorem empty_bank_reported:
  assumes "load_tasks_from_supabase bank = []"
  shows "begin_test now st u Registered bank rnd = emit st u NoTasks \<and>
         outbox (begin_test now st u Registered bank rnd) = outbox st @ [(u, NoTasks)] \<and>
         sessions (begin_test now st u Registered bank rnd) = sessions st \<and>
         timers (begin_test now st u Registered bank rnd) = timers st \<and>
         (sessions st u = None \<longrightarrow> sessions (begin_test now st u Registered bank rnd) u = None) \<and>
         begin_test now st u Registered bank rnd \<noteq> begin_test now st u NotRegistered bank rnd \<and>
         begin_test now st u Registered bank rnd \<noteq> begin_test now st u RegCheckError bank rnd"
proof -
  have e: "begin_test now st u Registered bank rnd = emit st u NoTasks"
    using assms by (simp add: begin_test_def)
  have "outbox (emit st u NoTasks) \<noteq> outbox (emit st u RegisterFirst)"
    and "outbox (emit st u NoTasks) \<noteq> outbox (emit st u ServerError)"
    by simp_all
  then have "emit st u NoTasks \<noteq> emit st u RegisterFirst"
    and "emit st u NoTasks \<noteq> emit st u ServerError"
    by metis+
  then have "emit st u NoTasks \<noteq> begin_test now st u NotRegistered bank rnd"
    and "emit st u NoTasks \<noteq> begin_test now st u RegCheckError bank rnd"
    by (simp_all add: begin_test_def)
  with e show ?thesis by simp
qed

theorem empty_bank_reported_witness:
  "load_tasks_from_supabase None = [] \<and> load_tasks_from_supabase (Some []) = [] \<and>
   sessions init 7 = None \<and>
   begin_test 0 init 7 Registered None rnd_last = emit init 7 NoTasks \<and>
   sessions (begin_test 0 init 7 Registered None rnd_last) 7 = None \<and>
   outbox (begin_test 0 init 7 Registered (Some []) rnd_last) = [(7, NoTasks)]"
proof -
  have a: "load_tasks_from_supabase None = []" and b: "load_tasks_from_supabase (Some []) = []"
    by (simp_all add: load_tasks_from_supabase_def)
  have c: "sessions init 7 = None" "outbox init = []" by (simp_all add: init_def)
  from empty_bank_reported [OF a, of 0 init 7 rnd_last]
    empty_bank_reported [OF b, of 0 init 7 rnd_last] a b c
  show ?thesis by simp
qed

section \<open>A button of an earlier question\<close>

text \<open>
  C10. A button answer is scored whenever the user has a session: the handler looks
  neither at the free-text flag nor at the options of the current task. Whatever label
  the callback carries is compared with the expected answer of the task at the current
  position, the outcome is scored on that task, and the position advances. A button
  left over from an earlier question is thus scored against the current task.
\<close>

theorem button_scored_against_current_task:
  assumes "sessions st u = Some s" and "current s < length (tasks s)"
  shows "(\<exists>s'. scored_as s (button_matches lower (tasks s ! current s) label) s' \<and>
            process_answer lower st u label
              = Inr (send_task
                  ((emit st u
                      (if button_matches lower (tasks s ! current s) label then Correct
                       else Incorrect))
                     \<lparr>sessions := (sessions st)(u \<mapsto> s')\<rparr>) u)) \<and>
         process_answer lower (st\<lparr>sessions := (sessions st)(u \<mapsto> s\<lparr>waiting_text := b\<rparr>)\<rparr>) u label
           = process_answer lower st u label"
proof -
  have "process_answer lower (st\<lparr>sessions := (sessions st)(u \<mapsto> s\<lparr>waiting_text := b\<rparr>)\<rparr>) u label
           = process_answer lower st u label"
    using assms by (simp add: process_answer_def Let_def emit_def)
  with process_answer_scored[OF assms] show ?thesis by blast
qed

theorem button_scored_against_current_task_witness:
  "sessions demo_state 7 = Some demo_session \<and>
   current demo_session < length (tasks demo_session) \<and>
   waiting_text demo_session \<and>
   tasks demo_session ! current demo_session = task2 \<and>
   U ''4'' \<in> set (map py_str (options task1)) \<and>
   U ''4'' \<notin> set (map py_str (options task2)) \<and>
   (\<exists>s'. scored_as demo_session (button_matches ascii_lower task2 (U ''4'')) s' \<and>
      process_answer ascii_lower demo_state 7 (U ''4'')
        = Inr (send_task
            ((emit demo_state 7
                (if button_matches ascii_lower task2 (U ''4'') then Correct else Incorrect))
               \<lparr>sessions := (sessions demo_state)(7 \<mapsto> s')\<rparr>) 7)) \<and>
   session_after (process_answer ascii_lower demo_state 7 (U ''4'')) 7 = None \<and>
   reports 7 (run ascii_lower demo_state [(20, AnsButton 7 (U ''4''))])
     = [Results 1 2 [(Str (U ''Capital of France?''), Str (U ''Paris it is''))]]"
proof -
  have a: "sessions demo_state 7 = Some demo_session"
    by (simp add: demo_state_def demo_session_def demo_trace_def eval_defs)
  have b: "current demo_session < length (tasks demo_session)"
    and c: "waiting_text demo_session"
    and t: "tasks demo_session ! current demo_session = task2"
    by (simp_all add: demo_session_def)
  have d: "U ''4'' \<in> set (map py_str (options task1))"
    "U ''4'' \<notin> set (map py_str (options task2))"
    by (simp_all add: eval_defs)
  have e: "session_after (process_answer ascii_lower demo_state 7 (U ''4'')) 7 = None"
    by (simp add: demo_state_def demo_trace_def eval_defs)
  have f: "reports 7 (run ascii_lower demo_state [(20, AnsButton 7 (U ''4''))])
     = [Results 1 2 [(Str (U ''Capital of France?''), Str (U ''Paris it is''))]]"
    by (simp add: demo_state_def demo_trace_def eval_defs)
  from button_scored_against_current_task [OF a b, of ascii_lower "U ''4''"] a b c d e f t
  show ?thesis by simp
qed

end
